theory Spec2Isabelle
  imports Main
begin

section \<open>Python values, errors and slices\<close>

text \<open>
  The engine of \<open>Utils/ParallelUtils.py\<close> is embedded as state-passing functions.
  Python integers are \<open>int\<close>, sequences are lists, \<open>None\<close> is the value
  \<open>None\<close> of an option type, and every exception the code can meet is a value of
  \<open>error\<close>. \<open>WorkerError c\<close> is an exception of class \<open>c\<close> raised by the
  work callback inside a worker and raised again by \<open>AsyncResult.get\<close> in the
  coordinator; \<open>MaybeEncodingError\<close> is what \<open>get\<close> raises instead when the worker
  could not pickle the exception.
\<close>

datatype error =
  ZeroDivisionError | ValueError | TypeError | IndexError | AttributeError
  | MaybeEncodingError | WorkerError string

text \<open>A statement ends abnormally by raising, or by blocking for ever on a handle.\<close>

datatype stop = Raise error | Block

datatype 'r outcome = Returned 'r | Raised error | Blocked

fun outcome_of :: "stop \<Rightarrow> 'r outcome" where
  "outcome_of (Raise e) = Raised e"
| "outcome_of Block = Blocked"

text \<open>
  \<open>int(a / b)\<close> for \<open>b \<noteq> 0\<close>: true division followed by truncation towards zero.
  (The quotient is taken as exact: sequence lengths stay far below \<open>2^53\<close>.)
  Python's \<open>%\<close> is the floored remainder, which is \<open>mod\<close> on \<open>int\<close>.
\<close>

definition py_int_truediv :: "int \<Rightarrow> int \<Rightarrow> int" where
  "py_int_truediv a b =
     (if (a < 0) = (b < 0) then \<bar>a\<bar> div \<bar>b\<bar> else - (\<bar>a\<bar> div \<bar>b\<bar>))"

text \<open>A \<open>bool\<close> used as an integer: \<open>(n % s > 0)\<close> added to a number.\<close>

definition py_bool :: "bool \<Rightarrow> int" where
  "py_bool b = (if b then 1 else 0)"

text \<open>\<open>xs[:e]\<close> and \<open>np.delete(xs, np.s_[:e], axis=0)\<close>; a negative bound counts from the end.\<close>

definition slice_to :: "'a list \<Rightarrow> int \<Rightarrow> 'a list" where
  "slice_to xs e = (if e < 0 then take (nat (int (length xs) + e)) xs else take (nat e) xs)"

definition np_delete_to :: "'a list \<Rightarrow> int \<Rightarrow> 'a list" where
  "np_delete_to xs e = (if e < 0 then drop (nat (int (length xs) + e)) xs else drop (nat e) xs)"

text \<open>\<open>xs[a:b]\<close>: a bound is clipped to the length, a negative one counts from the end.\<close>

definition slice_bound :: "nat \<Rightarrow> int \<Rightarrow> nat" where
  "slice_bound n i = (if i < 0 then nat (int n + i) else min n (nat i))"

definition slice :: "'a list \<Rightarrow> int \<Rightarrow> int \<Rightarrow> 'a list" where
  "slice xs a b = drop (slice_bound (length xs) a) (take (slice_bound (length xs) b) xs)"

text \<open>
  \<open>xs[i]\<close>, where \<open>None\<close> stands for IndexError; an index below zero is taken
  from the end.
\<close>

definition py_index :: "'a list \<Rightarrow> int \<Rightarrow> 'a option" where
  "py_index xs i =
     (if 0 \<le> i \<and> i < int (length xs) then Some (xs ! nat i)
      else if i < 0 \<and> - int (length xs) \<le> i then Some (xs ! nat (int (length xs) + i))
      else None)"

section \<open>The worker pool\<close>

text \<open>
  The operations the coordinator performs on the pool are recorded in execution order.
  \<open>ApplyAsync h\<close> submits the task whose handle is \<open>h\<close> (the number of tasks
  submitted before it), \<open>Wait h\<close> and \<open>Get h\<close> block on that handle.
\<close>

datatype event =
  PoolCreate int | ApplyAsync nat | Wait nat | Get nat | PoolClose | PoolJoin | PoolTerminate

text \<open>
  \<open>multiprocessing.Pool(processes=n)\<close> raises ValueError unless \<open>n \<ge> 1\<close>
  (the constructor's own check).
\<close>

definition Pool_ok :: "int \<Rightarrow> bool" where
  "Pool_ok processes = (1 \<le> processes)"

text \<open>
  A task ends by returning a value or by raising an exception of some class. What it
  has produced travels to the coordinator as a pickled message. An exception either
  survives the journey, or cannot be pickled in the worker (the pool then sends a
  MaybeEncodingError in its place), or is pickled but cannot be unpickled in the
  coordinator. Returned values are sequences of plain items and are taken to pickle.
\<close>

datatype transport = Survives | NotPicklable | NotUnpicklable

datatype 'v message = Value 'v | Error string | EncodingError

text \<open>
  The message that reaches the coordinator; \<open>None\<close> when unpickling it fails there.
\<close>

fun transported :: "(string \<times> transport) + 'v \<Rightarrow> 'v message option" where
  "transported (Inr v) = Some (Value v)"
| "transported (Inl (cls, Survives)) = Some (Error cls)"
| "transported (Inl (cls, NotPicklable)) = Some EncodingError"
| "transported (Inl (cls, NotUnpicklable)) = None"

text \<open>
  Workers finish tasks in an order the coordinator does not control. The environment
  chooses \<open>order\<close>; the pool runs every submitted task to its end, those that
  \<open>order\<close> names first and in that order, then the others.
\<close>

definition completion_order :: "nat list \<Rightarrow> nat \<Rightarrow> nat list" where
  "completion_order order n =
     filter (\<lambda>h. h < n) order @ filter (\<lambda>h. h \<notin> set order) [0..<n]"

text \<open>
  The pool's result thread takes the messages in the order of completion and stores each
  under the handle of its task; a handle resolves once its message is stored. A message
  that cannot be unpickled ends the thread: neither that message nor any later one is
  stored, and the handles concerned never resolve.
\<close>

fun deliver :: "(nat \<Rightarrow> 'm option) \<Rightarrow> nat list \<Rightarrow> (nat \<rightharpoonup> 'm) \<Rightarrow> (nat \<rightharpoonup> 'm)" where
  "deliver msg [] m = m"
| "deliver msg (h # hs) m =
     (case msg h of None \<Rightarrow> m | Some x \<Rightarrow> deliver msg hs (m(h \<mapsto> x)))"

definition delivered ::
  "('t \<Rightarrow> (string \<times> transport) + 'v) \<Rightarrow> 't list \<Rightarrow> nat list \<Rightarrow> nat \<Rightarrow> 'v message option" where
  "delivered exec_function tasks order =
     deliver (\<lambda>h. transported (exec_function (tasks ! h)))
       (completion_order order (length tasks)) Map.empty"

section \<open>multiprocess_run\<close>

text \<open>
  A task of \<open>multiprocess_run\<close> returns a tuple whose entries are sequences or
  \<open>None\<close>, or raises an exception of some class.
\<close>

type_synonym 'b task_result = "(string \<times> transport) + 'b list option list"

text \<open>
  The coordinator's state. numpy arrays live in \<open>heap\<close> under addresses, so that a
  name bound to the caller's array is an alias of it; \<open>datapoints\<close> is the address the
  local name holds. \<open>pool_tasks\<close> are the chunks as pickled at submission, one per
  handle, and \<open>semaphores\<close> the handles \<open>apply_async\<close> returned.
\<close>

record ('a, 'b) state =
  heap :: "nat \<Rightarrow> 'a list"
  next_addr :: nat
  datapoints :: nat
  pool_tasks :: "'a list list"
  semaphores :: "nat list"
  process_counter :: int
  datapoints_db :: "'b list option list"
  trace :: "event list"

text \<open>The caller's \<open>data\<close> is the array at address \<open>data_ref\<close>.\<close>

definition data_ref :: nat where
  "data_ref = 0"

definition init_state :: "'a list \<Rightarrow> ('a, 'b) state" where
  "init_state data =
     \<lparr>heap = (\<lambda>_. [])(data_ref := data), next_addr = Suc data_ref, datapoints = data_ref,
      pool_tasks = [], semaphores = [], process_counter = 0, datapoints_db = [],
      trace = []\<rparr>"

text \<open>A new array: a fresh address.\<close>

definition alloc :: "'a list \<Rightarrow> ('a, 'b) state \<Rightarrow> nat \<times> ('a, 'b) state" where
  "alloc arr s =
     (next_addr s, s\<lparr>heap := (heap s)(next_addr s := arr), next_addr := Suc (next_addr s)\<rparr>)"

text \<open>
  \<open>np.asarray(data)\<close> returns its argument when it is an array already. Of a list it
  makes a new array of the same length whose items are those of the list converted to
  the one dtype numpy chooses for that list (integers to a fixed width, mixed items to
  strings, and so on): \<open>to_dtype xs\<close> is that conversion for the list \<open>xs\<close>.
\<close>

definition asarray_items :: "('a list \<Rightarrow> 'a \<Rightarrow> 'a) \<Rightarrow> bool \<Rightarrow> 'a list \<Rightarrow> 'a list" where
  "asarray_items to_dtype is_ndarray xs = (if is_ndarray then xs else map (to_dtype xs) xs)"

definition np_asarray ::
  "('a list \<Rightarrow> 'a \<Rightarrow> 'a) \<Rightarrow> bool \<Rightarrow> nat \<Rightarrow> ('a, 'b) state \<Rightarrow> nat \<times> ('a, 'b) state" where
  "np_asarray to_dtype is_ndarray r s =
     (if is_ndarray then (r, s) else alloc (asarray_items to_dtype is_ndarray (heap s r)) s)"

text \<open>
  The first half of one pass of the submission loop (lines 40 to 56): the chunk is the
  front of \<open>datapoints\<close>, it is submitted, and \<open>np.delete\<close> builds the rest as a
  new array.
\<close>

definition submit_chunk :: "int \<Rightarrow> ('a, 'b) state \<Rightarrow> ('a, 'b) state" where
  "submit_chunk step_size s =
     (let len_data = int (length (heap s data_ref));
          end_idx = (if step_size > len_data then len_data else step_size);
          cur_datapoints = slice_to (heap s (datapoints s)) end_idx;
          h = length (pool_tasks s);
          s1 = s\<lparr>pool_tasks := pool_tasks s @ [cur_datapoints],
                 semaphores := semaphores s @ [h],
                 trace := trace s @ [ApplyAsync h]\<rparr>;
          (r, s2) = alloc (np_delete_to (heap s1 (datapoints s1)) end_idx) s1
      in s2\<lparr>datapoints := r\<rparr>)"

text \<open>
  The second half (lines 59 to 63), run with a progress bar only: the coordinator waits
  on \<open>semaphores[process_counter]\<close> when the counter has reached \<open>cpu_count + 1\<close>,
  and counts on otherwise.
\<close>

definition throttle ::
  "('a list \<Rightarrow> 'b task_result) \<Rightarrow> nat list \<Rightarrow> int \<Rightarrow> ('a, 'b) state \<Rightarrow>
   ('a, 'b) state \<times> stop option" where
  "throttle exec_function order cpu_count s =
     (if process_counter s = cpu_count + 1 then
        (case py_index (semaphores s) (process_counter s) of
           None \<Rightarrow> (s, Some (Raise IndexError))
         | Some w \<Rightarrow>
             (case delivered exec_function (pool_tasks s) order w of
                None \<Rightarrow> (s\<lparr>trace := trace s @ [Wait w]\<rparr>, Some Block)
              | Some _ \<Rightarrow> (s\<lparr>trace := trace s @ [Wait w], process_counter := 0\<rparr>, None)))
      else (s\<lparr>process_counter := process_counter s + 1\<rparr>, None))"

definition submit_step ::
  "('a list \<Rightarrow> 'b task_result) \<Rightarrow> nat list \<Rightarrow> int \<Rightarrow> bool \<Rightarrow> int \<Rightarrow>
   ('a, 'b) state \<Rightarrow> ('a, 'b) state \<times> stop option" where
  "submit_step exec_function order cpu_count pbar step_size s =
     (let s' = submit_chunk step_size s
      in if pbar then throttle exec_function order cpu_count s' else (s', None))"

text \<open>\<open>for i in range(step)\<close>: the body does not read \<open>i\<close>.\<close>

fun submit_loop ::
  "('a list \<Rightarrow> 'b task_result) \<Rightarrow> nat list \<Rightarrow> int \<Rightarrow> bool \<Rightarrow> int \<Rightarrow> nat \<Rightarrow>
   ('a, 'b) state \<Rightarrow> ('a, 'b) state \<times> stop option" where
  "submit_loop exec_function order cpu_count pbar step_size 0 s = (s, None)"
| "submit_loop exec_function order cpu_count pbar step_size (Suc n) s =
     (case submit_step exec_function order cpu_count pbar step_size s of
        (s', Some st) \<Rightarrow> (s', Some st)
      | (s', None) \<Rightarrow> submit_loop exec_function order cpu_count pbar step_size n s')"

text \<open>
  \<open>datapoints_db[k].extend(res[k])\<close>: the bucket is looked up first, then \<open>res[k]\<close>,
  and \<open>extend\<close> raises TypeError on \<open>None\<close>.
\<close>

definition extend_bucket ::
  "'b list option list \<Rightarrow> 'b list option list \<Rightarrow> nat \<Rightarrow> error + 'b list option list" where
  "extend_bucket db res k =
     (if length db \<le> k then Inl IndexError
      else case db ! k of
        None \<Rightarrow> Inl AttributeError
      | Some bucket \<Rightarrow>
          if length res \<le> k then Inl IndexError
          else case res ! k of
            None \<Rightarrow> Inl TypeError
          | Some xs \<Rightarrow> Inr (db[k := Some (bucket @ xs)]))"

text \<open>\<open>for k in range(output_dim)\<close>; buckets extended before a failure stay extended.\<close>

fun extend_all ::
  "nat list \<Rightarrow> 'b list option list \<Rightarrow> 'b list option list \<Rightarrow>
   'b list option list \<times> error option" where
  "extend_all [] res db = (db, None)"
| "extend_all (k # ks) res db =
     (case extend_bucket db res k of
        Inl e \<Rightarrow> (db, Some e)
      | Inr db' \<Rightarrow> extend_all ks res db')"

text \<open>
  The aggregation loop (lines 68 to 73) walks \<open>semaphores\<close> from its first handle to
  its last and calls \<open>get\<close> on each. \<open>get\<close> blocks until the handle resolves, which
  is for ever when its message is never stored; it then returns the value or raises
  what the message holds.
\<close>

fun aggregate ::
  "('a list \<Rightarrow> 'b task_result) \<Rightarrow> nat list \<Rightarrow> int \<Rightarrow> nat list \<Rightarrow>
   ('a, 'b) state \<Rightarrow> ('a, 'b) state \<times> stop option" where
  "aggregate exec_function order output_dim [] s = (s, None)"
| "aggregate exec_function order output_dim (h # hs) s =
     (case delivered exec_function (pool_tasks s) order h of
        None \<Rightarrow> (s\<lparr>trace := trace s @ [Get h]\<rparr>, Some Block)
      | Some (Error cls) \<Rightarrow> (s\<lparr>trace := trace s @ [Get h]\<rparr>, Some (Raise (WorkerError cls)))
      | Some EncodingError \<Rightarrow>
          (s\<lparr>trace := trace s @ [Get h]\<rparr>, Some (Raise MaybeEncodingError))
      | Some (Value res) \<Rightarrow>
          (case extend_all [0..<nat output_dim] res (datapoints_db s) of
             (db, Some e) \<Rightarrow>
               (s\<lparr>trace := trace s @ [Get h], datapoints_db := db\<rparr>, Some (Raise e))
           | (db, None) \<Rightarrow>
               aggregate exec_function order output_dim hs
                 (s\<lparr>trace := trace s @ [Get h], datapoints_db := db\<rparr>)))"

text \<open>\<open>tuple(filter(lambda x: not x is None, datapoints_db))\<close>\<close>

definition remove_None :: "'b list option list \<Rightarrow> 'b list list" where
  "remove_None db = List.map_filter (\<lambda>x. x) db"

text \<open>
  Line 27: \<open>step = int(len(data) / step_size) + (len(data) % step_size > 0)\<close>, for a
  \<open>step_size\<close> that is not zero.
\<close>

definition step_count :: "int \<Rightarrow> int \<Rightarrow> int" where
  "step_count len_data step_size =
     py_int_truediv len_data step_size + py_bool (len_data mod step_size > 0)"

text \<open>Line 28: the empty buckets, one per output.\<close>

definition init_buckets :: "int \<Rightarrow> ('a, 'b) state \<Rightarrow> ('a, 'b) state" where
  "init_buckets output_dim s =
     s\<lparr>datapoints_db := replicate (nat output_dim) (Some []), semaphores := [],
       process_counter := 0\<rparr>"

text \<open>Lines 32 to 38, for a pool that can be created: the pool, then \<open>np.asarray(data)\<close>.\<close>

definition start_run ::
  "('a list \<Rightarrow> 'a \<Rightarrow> 'a) \<Rightarrow> bool \<Rightarrow> int \<Rightarrow> ('a, 'b) state \<Rightarrow> ('a, 'b) state" where
  "start_run to_dtype is_ndarray cpu_count s =
     (let (r, s') = np_asarray to_dtype is_ndarray data_ref
                      (s\<lparr>trace := trace s @ [PoolCreate cpu_count]\<rparr>)
      in s'\<lparr>datapoints := r\<rparr>)"

text \<open>The aggregation loop runs when the submission loop has ended without an exception.\<close>

definition collect ::
  "('a list \<Rightarrow> 'b task_result) \<Rightarrow> nat list \<Rightarrow> int \<Rightarrow> ('a, 'b) state \<times> stop option \<Rightarrow>
   ('a, 'b) state \<times> stop option" where
  "collect exec_function order output_dim p =
     (case p of
        (s, Some st) \<Rightarrow> (s, Some st)
      | (s, None) \<Rightarrow> aggregate exec_function order output_dim (semaphores s) s)"

text \<open>
  Lines 80 to 86, reached when no exception has ended the run: \<open>pool.close()\<close>,
  \<open>pool.join()\<close> and the returned tuple. An exception leaves the function at the
  statement that raised it.
\<close>

definition finish_run ::
  "('a, 'b) state \<times> stop option \<Rightarrow> ('a, 'b) state \<times> 'b list list outcome" where
  "finish_run p =
     (case p of
        (s, Some st) \<Rightarrow> (s, outcome_of st)
      | (s, None) \<Rightarrow>
          (s\<lparr>trace := trace s @ [PoolClose, PoolJoin]\<rparr>,
           Returned (remove_None (datapoints_db s))))"

text \<open>
  The whole function. \<open>exec_params\<close> are fixed for a run and are part of
  \<open>exec_function\<close>, which is a function the workers can import; \<open>is_ndarray\<close> and
  \<open>to_dtype\<close> say what \<open>np.asarray\<close> does to \<open>data\<close>. The progress bar and the
  printed lines change nothing that is returned and are left out. The result is the final state with the outcome. Line 27
  divides by \<open>step_size\<close> before anything else happens, and the pool is created after
  the buckets.
\<close>

definition multiprocess_run ::
  "('a list \<Rightarrow> 'b task_result) \<Rightarrow> 'a list \<Rightarrow> bool \<Rightarrow> ('a list \<Rightarrow> 'a \<Rightarrow> 'a) \<Rightarrow> int \<Rightarrow> bool \<Rightarrow>
   int \<Rightarrow> int \<Rightarrow> nat list \<Rightarrow> ('a, 'b) state \<times> 'b list list outcome" where
  "multiprocess_run exec_function data is_ndarray to_dtype cpu_count pbar step_size output_dim
     order =
     (if step_size = 0 then (init_state data, Raised ZeroDivisionError)
      else if \<not> Pool_ok cpu_count then
        (init_buckets output_dim (init_state data), Raised ValueError)
      else
        finish_run
          (collect exec_function order output_dim
            (submit_loop exec_function order cpu_count pbar step_size
              (nat (step_count (int (length data)) step_size))
              (start_run to_dtype is_ndarray cpu_count
                (init_buckets output_dim (init_state data))))))"

section \<open>multigpu_run\<close>

text \<open>
  A task of \<open>multigpu_run\<close> returns one flat sequence (or \<open>None\<close>), or raises.
  \<open>data\<close> is the pair \<open>(X, Y)\<close>.
\<close>

type_synonym 'b gpu_result = "(string \<times> transport) + 'b list option"

record ('x, 'y, 'b) gpu_state =
  device_queue :: "int list option"
  gpu_tasks :: "('x list \<times> 'y list) list"
  gpu_semaphores :: "nat list"
  gpu_process_counter :: int
  gpu_datapoints_db :: "'b list"
  gpu_trace :: "event list"

text \<open>
  Lines 130 to 136: the pair \<open>(step_size, step)\<close>. The caller's \<open>step_size\<close> is the
  first argument; both branches assign the name anew.
\<close>

definition gpu_partition :: "int option \<Rightarrow> int \<Rightarrow> int \<Rightarrow> int \<times> int" where
  "gpu_partition step_size data_size gpu_count =
     (if gpu_count > 1 then
        (py_int_truediv data_size gpu_count,
         gpu_count + py_bool (data_size mod gpu_count > 0))
      else (data_size, 1))"

text \<open>Lines 139 to 143: the queue of device ids, in the order they were put.\<close>

definition build_device_queue :: "int \<Rightarrow> int \<Rightarrow> int list option" where
  "build_device_queue gpu_count step =
     (if gpu_count > 0 then Some (map (\<lambda>dev. int dev mod gpu_count) [0..<nat step])
      else None)"

text \<open>
  One pass of the submission loop for the index \<open>i\<close>. Lines 157 to 172 cut the chunk
  out of \<open>X\<close> and \<open>Y\<close> and submit it.
\<close>

definition gpu_submit_chunk ::
  "'x list \<times> 'y list \<Rightarrow> int \<Rightarrow> int \<Rightarrow> nat \<Rightarrow> ('x, 'y, 'b) gpu_state \<Rightarrow> ('x, 'y, 'b) gpu_state" where
  "gpu_submit_chunk data data_size step_size i s =
     (let end_idx0 = (int i + 1) * step_size;
          end_idx = (if end_idx0 > data_size then data_size else end_idx0);
          cur_datapoints = (slice (fst data) (int i * step_size) end_idx,
                            slice (snd data) (int i * step_size) end_idx);
          h = length (gpu_tasks s)
      in s\<lparr>gpu_tasks := gpu_tasks s @ [cur_datapoints],
            gpu_semaphores := gpu_semaphores s @ [h],
            gpu_trace := gpu_trace s @ [ApplyAsync h]\<rparr>)"

text \<open>
  Lines 175 to 179, run with a progress bar only: the coordinator waits on
  \<open>semaphores[process_counter-1]\<close> when the counter equals \<open>gpu_count\<close>.
\<close>

definition gpu_throttle ::
  "('x list \<times> 'y list \<Rightarrow> 'b gpu_result) \<Rightarrow> nat list \<Rightarrow> int \<Rightarrow> ('x, 'y, 'b) gpu_state \<Rightarrow>
   ('x, 'y, 'b) gpu_state \<times> stop option" where
  "gpu_throttle exec_function order gpu_count s =
     (if gpu_process_counter s = gpu_count then
        (case py_index (gpu_semaphores s) (gpu_process_counter s - 1) of
           None \<Rightarrow> (s, Some (Raise IndexError))
         | Some w \<Rightarrow>
             (case delivered exec_function (gpu_tasks s) order w of
                None \<Rightarrow> (s\<lparr>gpu_trace := gpu_trace s @ [Wait w]\<rparr>, Some Block)
              | Some _ \<Rightarrow>
                  (s\<lparr>gpu_trace := gpu_trace s @ [Wait w], gpu_process_counter := 0\<rparr>, None)))
      else (s\<lparr>gpu_process_counter := gpu_process_counter s + 1\<rparr>, None))"

definition gpu_submit_step ::
  "('x list \<times> 'y list \<Rightarrow> 'b gpu_result) \<Rightarrow> nat list \<Rightarrow> 'x list \<times> 'y list \<Rightarrow> int \<Rightarrow> bool \<Rightarrow>
   int \<Rightarrow> int \<Rightarrow> nat \<Rightarrow> ('x, 'y, 'b) gpu_state \<Rightarrow> ('x, 'y, 'b) gpu_state \<times> stop option" where
  "gpu_submit_step exec_function order data gpu_count pbar data_size step_size i s =
     (let s' = gpu_submit_chunk data data_size step_size i s
      in if pbar then gpu_throttle exec_function order gpu_count s' else (s', None))"

fun gpu_submit_loop ::
  "('x list \<times> 'y list \<Rightarrow> 'b gpu_result) \<Rightarrow> nat list \<Rightarrow> 'x list \<times> 'y list \<Rightarrow> int \<Rightarrow> bool \<Rightarrow>
   int \<Rightarrow> int \<Rightarrow> nat list \<Rightarrow> ('x, 'y, 'b) gpu_state \<Rightarrow>
   ('x, 'y, 'b) gpu_state \<times> stop option" where
  "gpu_submit_loop exec_function order data gpu_count pbar data_size step_size [] s = (s, None)"
| "gpu_submit_loop exec_function order data gpu_count pbar data_size step_size (i # is) s =
     (case gpu_submit_step exec_function order data gpu_count pbar data_size step_size i s of
        (s', Some st) \<Rightarrow> (s', Some st)
      | (s', None) \<Rightarrow>
          gpu_submit_loop exec_function order data gpu_count pbar data_size step_size is s')"

text \<open>Lines 181 to 184: \<open>datapoints_db.extend(semaphores[i].get())\<close>.\<close>

fun gpu_aggregate ::
  "('x list \<times> 'y list \<Rightarrow> 'b gpu_result) \<Rightarrow> nat list \<Rightarrow> nat list \<Rightarrow>
   ('x, 'y, 'b) gpu_state \<Rightarrow> ('x, 'y, 'b) gpu_state \<times> stop option" where
  "gpu_aggregate exec_function order [] s = (s, None)"
| "gpu_aggregate exec_function order (h # hs) s =
     (case delivered exec_function (gpu_tasks s) order h of
        None \<Rightarrow> (s\<lparr>gpu_trace := gpu_trace s @ [Get h]\<rparr>, Some Block)
      | Some (Error cls) \<Rightarrow>
          (s\<lparr>gpu_trace := gpu_trace s @ [Get h]\<rparr>, Some (Raise (WorkerError cls)))
      | Some EncodingError \<Rightarrow>
          (s\<lparr>gpu_trace := gpu_trace s @ [Get h]\<rparr>, Some (Raise MaybeEncodingError))
      | Some (Value None) \<Rightarrow>
          (s\<lparr>gpu_trace := gpu_trace s @ [Get h]\<rparr>, Some (Raise TypeError))
      | Some (Value (Some xs)) \<Rightarrow>
          gpu_aggregate exec_function order hs
            (s\<lparr>gpu_trace := gpu_trace s @ [Get h],
               gpu_datapoints_db := gpu_datapoints_db s @ xs\<rparr>))"

text \<open>The coordinator's state when the queue is built and the pool not yet created.\<close>

definition gpu_init :: "int \<Rightarrow> int \<Rightarrow> ('x, 'y, 'b) gpu_state" where
  "gpu_init gpu_count step =
     \<lparr>device_queue = build_device_queue gpu_count step, gpu_tasks = [], gpu_semaphores = [],
      gpu_process_counter = 1, gpu_datapoints_db = [], gpu_trace = []\<rparr>"

text \<open>The aggregation loop runs when the submission loop has ended without an exception.\<close>

definition gpu_collect ::
  "('x list \<times> 'y list \<Rightarrow> 'b gpu_result) \<Rightarrow> nat list \<Rightarrow> ('x, 'y, 'b) gpu_state \<times> stop option \<Rightarrow>
   ('x, 'y, 'b) gpu_state \<times> stop option" where
  "gpu_collect exec_function order p =
     (case p of
        (s, Some st) \<Rightarrow> (s, Some st)
      | (s, None) \<Rightarrow> gpu_aggregate exec_function order (gpu_semaphores s) s)"

text \<open>Lines 186 to 189: \<open>pool.terminate()\<close>, \<open>pool.close()\<close> and the returned list.\<close>

definition gpu_finish ::
  "('x, 'y, 'b) gpu_state \<times> stop option \<Rightarrow> ('x, 'y, 'b) gpu_state \<times> 'b list outcome" where
  "gpu_finish p =
     (case p of
        (s, Some st) \<Rightarrow> (s, outcome_of st)
      | (s, None) \<Rightarrow>
          (s\<lparr>gpu_trace := gpu_trace s @ [PoolTerminate, PoolClose]\<rparr>,
           Returned (gpu_datapoints_db s)))"

text \<open>
  The whole function; \<open>output_dim\<close> is accepted and never read. The worker
  initializer (the tensorflow session of each process) is outside the embedding: the
  queue is kept as it stands when the pool is created.
\<close>

definition multigpu_run ::
  "('x list \<times> 'y list \<Rightarrow> 'b gpu_result) \<Rightarrow> 'x list \<times> 'y list \<Rightarrow> int \<Rightarrow> bool \<Rightarrow> int option \<Rightarrow>
   int \<Rightarrow> nat list \<Rightarrow> ('x, 'y, 'b) gpu_state \<times> 'b list outcome" where
  "multigpu_run exec_function data gpu_count pbar step_size output_dim order =
     (let data_size = int (length (fst data));
          part = gpu_partition step_size data_size gpu_count
      in if \<not> Pool_ok gpu_count then (gpu_init gpu_count (snd part), Raised ValueError)
         else
           gpu_finish
             (gpu_collect exec_function order
               (gpu_submit_loop exec_function order data gpu_count pbar data_size (fst part)
                 [0..<nat (snd part)]
                 ((gpu_init gpu_count (snd part))\<lparr>gpu_trace := [PoolCreate gpu_count]\<rparr>))))"

section \<open>Notions the properties are stated with\<close>

text \<open>
  \<open>chunk_of S data i\<close> is \<open>data[i*S : min((i+1)*S, N)]\<close>, the items at the indices
  from \<open>i*S\<close> up to, and without, \<open>min((i+1)*S, N)\<close>, where \<open>N\<close> is the length.
\<close>

definition chunk_of :: "nat \<Rightarrow> 'a list \<Rightarrow> nat \<Rightarrow> 'a list" where
  "chunk_of S data i = take (min ((i + 1) * S) (length data) - i * S) (drop (i * S) data)"

text \<open>The handles of a trace, by the operation performed on them.\<close>

fun submitted :: "event list \<Rightarrow> nat list" where
  "submitted [] = []"
| "submitted (ApplyAsync h # es) = h # submitted es"
| "submitted (e # es) = submitted es"

fun waited :: "event list \<Rightarrow> nat list" where
  "waited [] = []"
| "waited (Wait h # es) = h # waited es"
| "waited (e # es) = waited es"

fun resolved :: "event list \<Rightarrow> nat list" where
  "resolved [] = []"
| "resolved (Get h # es) = h # resolved es"
| "resolved (e # es) = resolved es"

text \<open>The trace of the submission loop: what precedes the first \<open>get\<close>.\<close>

fun submission :: "event list \<Rightarrow> event list" where
  "submission [] = []"
| "submission (Get h # es) = []"
| "submission (e # es) = e # submission es"

text \<open>
  The handles that may still be unresolved at the end of a trace when no task ends before
  the coordinator blocks on it or on a later one: those submitted with a handle above
  every handle waited on. (A handle waited on counts as resolved together with all
  older ones.)
\<close>

definition outstanding :: "event list \<Rightarrow> nat list" where
  "outstanding es = filter (\<lambda>h. list_all (\<lambda>w. w < h) (waited es)) (submitted es)"


text \<open>The events of the submission loop.\<close>

fun submit_event :: "event \<Rightarrow> bool" where
  "submit_event (ApplyAsync h) = True"
| "submit_event (Wait h) = True"
| "submit_event e = False"

text \<open>
  What the submission loop keeps true of the coordinator: the handles are the numbers of
  the submitted tasks in order, and the counter never runs ahead of them.
\<close>

definition handles_ok :: "('a, 'b) state \<Rightarrow> bool" where
  "handles_ok s =
     (semaphores s = [0..<length (pool_tasks s)] \<and> 0 \<le> process_counter s \<and>
      process_counter s \<le> int (length (semaphores s)))"

text \<open>Every message of the tasks \<open>ts\<close> can be unpickled by the coordinator.\<close>

definition deliverable :: "('t \<Rightarrow> (string \<times> transport) + 'v) \<Rightarrow> 't list \<Rightarrow> bool" where
  "deliverable f ts = list_all (\<lambda>t. transported (f t) \<noteq> None) ts"

section \<open>The pool resolves every handle whose message can be unpickled\<close>

lemma deliver_lookup:
  assumes "\<forall>h\<in>set hs. msg h \<noteq> None"
  shows "deliver msg hs m x = (if x \<in> set hs then msg x else m x)"
  using assms by (induction hs arbitrary: m) auto

text \<open>
  When every message of the submitted tasks can be unpickled, a handle yields the
  message of its own task, whatever the order of completion.
\<close>

lemma delivered_handle:
  assumes "h < length tasks" "deliverable f tasks"
  shows "delivered f tasks order h = transported (f (tasks ! h))"
proof -
  have "\<forall>k\<in>set (completion_order order (length tasks)). transported (f (tasks ! k)) \<noteq> None"
    using assms(2) by (auto simp: completion_order_def deliverable_def list_all_length)
  then show ?thesis
    using assms(1) by (auto simp: delivered_def deliver_lookup completion_order_def)
qed

section \<open>The caller's data is never written\<close>

lemma submit_step_frame:
  assumes "submit_step f order cpu pbar S s = (s', r)" "data_ref < next_addr s"
  shows "heap s' data_ref = heap s data_ref \<and> data_ref < next_addr s'"
  using assms
  by (auto simp: submit_step_def submit_chunk_def throttle_def alloc_def Let_def
      split: if_splits option.splits)

lemma submit_loop_frame:
  assumes "submit_loop f order cpu pbar S n s = (s', r)" "data_ref < next_addr s"
  shows "heap s' data_ref = heap s data_ref \<and> data_ref < next_addr s'"
  using assms
proof (induction n arbitrary: s)
  case 0
  then show ?case by simp
next
  case (Suc n)
  obtain s1 r1 where st: "submit_step f order cpu pbar S s = (s1, r1)" by force
  from submit_step_frame[OF st Suc.prems(2)]
  have f1: "heap s1 data_ref = heap s data_ref" "data_ref < next_addr s1" by auto
  show ?case
  proof (cases r1)
    case None
    with Suc.prems(1) st have "submit_loop f order cpu pbar S n s1 = (s', r)" by simp
    from Suc.IH[OF this f1(2)] f1(1) show ?thesis by simp
  next
    case (Some a)
    with Suc.prems(1) st have "s' = s1" by simp
    with f1 show ?thesis by simp
  qed
qed

lemma aggregate_frame:
  assumes "aggregate f order od hs s = (s', r)"
  shows "heap s' = heap s \<and> pool_tasks s' = pool_tasks s \<and> semaphores s' = semaphores s"
  using assms
  by (induction hs arbitrary: s) (auto split: option.splits message.splits prod.splits)

lemma start_run_started:
  "heap (start_run td nd cpu (init_buckets od (init_state data))) data_ref = data"
  "data_ref < next_addr (start_run td nd cpu (init_buckets od (init_state data)))"
  "heap (start_run td nd cpu (init_buckets od (init_state data)))
     (datapoints (start_run td nd cpu (init_buckets od (init_state data))))
     = asarray_items td nd data"
  "datapoints_db (start_run td nd cpu (init_buckets od (init_state data)))
     = replicate (nat od) (Some [])"
  "trace (start_run td nd cpu (init_buckets od (init_state data))) = [PoolCreate cpu]"
  "pool_tasks (start_run td nd cpu (init_buckets od (init_state data))) = []"
  "semaphores (start_run td nd cpu (init_buckets od (init_state data))) = []"
  "process_counter (start_run td nd cpu (init_buckets od (init_state data))) = 0"
  by (simp_all add: start_run_def init_buckets_def init_state_def np_asarray_def alloc_def
      data_ref_def asarray_items_def)

lemma collect_frame:
  assumes "collect f order od (s, r) = (s', r')"
  shows "heap s' = heap s \<and> pool_tasks s' = pool_tasks s \<and> semaphores s' = semaphores s"
proof (cases r)
  case None
  with assms have "aggregate f order od (semaphores s) s = (s', r')"
    by (simp add: collect_def)
  then show ?thesis by (rule aggregate_frame)
next
  case (Some st)
  with assms show ?thesis by (simp add: collect_def)
qed

text \<open>
  Claim C9. For every input, whatever the outcome (a result, an exception, a blocked
  run), the array the caller passed as \<open>data\<close> holds after the run the items it held
  before, in the same number and order: \<open>np.delete\<close> builds each shortened array at a
  fresh address and only the local name \<open>datapoints\<close> is bound anew, also when
  \<open>np.asarray\<close> made that name an alias of the caller's array; when it converts a list
  it builds a new array as well.
\<close>

theorem multiprocess_run_data_unchanged:
  "heap (fst (multiprocess_run f data is_ndarray to_dtype cpu_count pbar step_size output_dim
       order)) data_ref = data"
proof (cases "step_size = 0 \<or> \<not> Pool_ok cpu_count")
  case True
  then show ?thesis
    by (auto simp: multiprocess_run_def init_buckets_def init_state_def)
next
  case False
  let ?s4 = "start_run to_dtype is_ndarray cpu_count (init_buckets output_dim (init_state data))
               :: ('a, 'b) state"
  have h4: "heap ?s4 data_ref = data" "data_ref < next_addr ?s4"
    by (simp_all add: start_run_started)
  obtain s5 r5 where l: "submit_loop f order cpu_count pbar step_size
      (nat (step_count (int (length data)) step_size)) ?s4 = (s5, r5)"
    by force
  have h5: "heap s5 data_ref = data"
    using submit_loop_frame[OF l] h4 by simp
  obtain s6 r6 where g: "collect f order output_dim (s5, r5) = (s6, r6)" by force
  have h6: "heap s6 data_ref = data"
    using collect_frame[OF g] h5 by simp
  have "fst (finish_run (s6, r6)) = s6 \<or>
      fst (finish_run (s6, r6)) = s6\<lparr>trace := trace s6 @ [PoolClose, PoolJoin]\<rparr>"
    by (cases r6) (simp_all add: finish_run_def)
  then show ?thesis
    using False l g h6 by (auto simp: multiprocess_run_def)
qed

theorem multiprocess_run_data_unchanged_witness:
  "heap (fst (multiprocess_run (\<lambda>c. Inr [Some c] :: int task_result) [5, 6, 7 :: int] True
     (\<lambda>xs x. x) 2 True 2 1 [1, 0])) data_ref = [5, 6, 7]"
  using multiprocess_run_data_unchanged
    [of "\<lambda>c. Inr [Some c] :: int task_result" "[5, 6, 7 :: int]" True "\<lambda>xs x. x" 2 True 2 1
      "[1, 0]"]
  by simp

section \<open>The submission loop\<close>

lemma py_index_upt:
  assumes "0 \<le> i" "i < int n"
  shows "py_index [0..<n] i = Some (nat i)"
  using assms by (simp add: py_index_def)

lemma end_idx_nat:
  assumes "0 < (S::int)"
  shows "nat (if S > int N then int N else S) = min (nat S) N"
    and "\<not> (if S > int N then int N else S) < 0"
  using assms by auto

lemma submit_chunk_ok:
  assumes "0 < S" "data_ref < next_addr s"
  defines "e \<equiv> min (nat S) (length (heap s data_ref))"
  shows "pool_tasks (submit_chunk S s) = pool_tasks s @ [take e (heap s (datapoints s))]"
    and "heap (submit_chunk S s) (datapoints (submit_chunk S s)) = drop e (heap s (datapoints s))"
    and "heap (submit_chunk S s) data_ref = heap s data_ref"
    and "data_ref < next_addr (submit_chunk S s)"
    and "datapoints_db (submit_chunk S s) = datapoints_db s"
    and "trace (submit_chunk S s) = trace s @ [ApplyAsync (length (pool_tasks s))]"
    and "semaphores (submit_chunk S s) = semaphores s @ [length (pool_tasks s)]"
    and "process_counter (submit_chunk S s) = process_counter s"
  using assms(2) end_idx_nat[OF assms(1), of "length (heap s data_ref)"]
  unfolding e_def
  by (simp_all add: submit_chunk_def alloc_def Let_def slice_to_def np_delete_to_def)

lemma throttle_ok:
  assumes "semaphores s = [0..<length (pool_tasks s)]" "0 \<le> process_counter s"
    "process_counter s < int (length (semaphores s))"
    and d: "deliverable f (pool_tasks s)"
    and t: "throttle f order cpu s = (s', r)"
  shows "r = None \<and> pool_tasks s' = pool_tasks s \<and> heap s' = heap s \<and> datapoints s' = datapoints s
     \<and> next_addr s' = next_addr s \<and> semaphores s' = semaphores s
     \<and> handles_ok s' \<and> datapoints_db s' = datapoints_db s
     \<and> (\<exists>evs. trace s' = trace s @ evs \<and> list_all submit_event evs)"
proof (cases "process_counter s = cpu + 1")
  case True
  have idx: "py_index (semaphores s) (process_counter s) = Some (nat (process_counter s))"
    using py_index_upt[of "process_counter s" "length (pool_tasks s)"] assms(1-3) by simp
  have w: "nat (process_counter s) < length (pool_tasks s)"
    using assms(1-3) by simp
  have "transported (f (pool_tasks s ! nat (process_counter s))) \<noteq> None"
    using d w by (simp add: deliverable_def list_all_length)
  then obtain y where fin: "delivered f (pool_tasks s) order (nat (process_counter s)) = Some y"
    using delivered_handle[OF w d, of order] by auto
  have "throttle f order cpu s =
      (s\<lparr>trace := trace s @ [Wait (nat (process_counter s))], process_counter := 0\<rparr>, None)"
    using True idx fin by (simp add: throttle_def)
  with t have "r = None" "s' = s\<lparr>trace := trace s @ [Wait (nat (process_counter s))], process_counter := 0\<rparr>"
    by simp_all
  then show ?thesis using assms(1) by (simp add: handles_ok_def)
next
  case False
  with t have "r = None" "s' = s\<lparr>process_counter := process_counter s + 1\<rparr>"
    by (simp_all add: throttle_def)
  then show ?thesis using assms(1-3) by (simp add: handles_ok_def)
qed

lemma submit_step_ok:
  assumes "handles_ok s" "0 < S" "data_ref < next_addr s"
    and d: "pbar \<longrightarrow> deliverable f
          (pool_tasks s @ [take (min (nat S) (length (heap s data_ref))) (heap s (datapoints s))])"
    and st: "submit_step f order cpu pbar S s = (s', r)"
  shows "r = None
     \<and> pool_tasks s' = pool_tasks s @ [take (min (nat S) (length (heap s data_ref))) (heap s (datapoints s))]
     \<and> heap s' (datapoints s') = drop (min (nat S) (length (heap s data_ref))) (heap s (datapoints s))
     \<and> heap s' data_ref = heap s data_ref \<and> data_ref < next_addr s'
     \<and> handles_ok s' \<and> datapoints_db s' = datapoints_db s
     \<and> (\<exists>evs. trace s' = trace s @ evs \<and> list_all submit_event evs)"
proof -
  let ?c = "submit_chunk S s"
  note c = submit_chunk_ok[OF assms(2,3)]
  have pre: "semaphores ?c = [0..<length (pool_tasks ?c)]" "0 \<le> process_counter ?c"
    "process_counter ?c < int (length (semaphores ?c))"
    using assms(1) by (auto simp: c handles_ok_def)
  show ?thesis
  proof (cases pbar)
    case True
    with st have t: "throttle f order cpu ?c = (s', r)"
      by (simp add: submit_step_def)
    have dc: "deliverable f (pool_tasks ?c)"
      using d True by (simp add: c)
    from throttle_ok[OF pre dc t] obtain evs where
      t: "r = None" "pool_tasks s' = pool_tasks ?c" "heap s' = heap ?c"
        "datapoints s' = datapoints ?c" "next_addr s' = next_addr ?c" "handles_ok s'"
        "datapoints_db s' = datapoints_db ?c" "trace s' = trace ?c @ evs" "list_all submit_event evs"
      by blast
    have "trace s' = trace s @ (ApplyAsync (length (pool_tasks s)) # evs)"
      using t(8) c(6) by simp
    moreover have "list_all submit_event (ApplyAsync (length (pool_tasks s)) # evs)"
      using t(9) by simp
    ultimately have "\<exists>evs. trace s' = trace s @ evs \<and> list_all submit_event evs"
      by blast
    then show ?thesis
      using t(1-7) c(1-5) by simp
  next
    case False
    with st have eq: "r = None" "s' = ?c"
      by (simp_all add: submit_step_def)
    have "handles_ok ?c"
      using pre by (simp add: handles_ok_def)
    moreover have "list_all submit_event [ApplyAsync (length (pool_tasks s))]" by simp
    then have "\<exists>evs. trace ?c = trace s @ evs \<and> list_all submit_event evs"
      using c(6) by blast
    ultimately show ?thesis
      using c(1-5) eq by simp
  qed
qed

lemma map_chunks_Suc:
  "map (\<lambda>k. take e (drop (k * e) D)) [0..<Suc n] =
   take e D # map (\<lambda>k. take e (drop (k * e) (drop e D))) [0..<n]"
proof -
  have "[0..<Suc n] = 0 # map Suc [0..<n]"
    by (simp add: upt_conv_Cons map_Suc_upt del: upt_Suc)
  then show ?thesis by (simp add: o_def add.commute del: upt_Suc)
qed

lemma submit_loop_ok:
  assumes "handles_ok s" "0 < S" "data_ref < next_addr s"
    and d: "pbar \<longrightarrow> deliverable f (pool_tasks s @
          map (\<lambda>k. take (min (nat S) (length (heap s data_ref)))
                     (drop (k * min (nat S) (length (heap s data_ref))) (heap s (datapoints s)))) [0..<n])"
    and st: "submit_loop f order cpu pbar S n s = (s', r)"
  shows "r = None
     \<and> pool_tasks s' = pool_tasks s @
          map (\<lambda>k. take (min (nat S) (length (heap s data_ref)))
                     (drop (k * min (nat S) (length (heap s data_ref))) (heap s (datapoints s)))) [0..<n]
     \<and> handles_ok s' \<and> datapoints_db s' = datapoints_db s
     \<and> (\<exists>evs. trace s' = trace s @ evs \<and> list_all submit_event evs)"
  using assms
proof (induction n arbitrary: s)
  case 0
  then show ?case by auto
next
  case (Suc n)
  let ?e = "min (nat S) (length (heap s data_ref))"
  let ?D = "heap s (datapoints s)"
  have chunks: "map (\<lambda>k. take ?e (drop (k * ?e) ?D)) [0..<Suc n] =
      take ?e ?D # map (\<lambda>k. take ?e (drop (k * ?e) (drop ?e ?D))) [0..<n]"
    by (rule map_chunks_Suc)
  have d1: "pbar \<longrightarrow> deliverable f (pool_tasks s @ [take ?e ?D])"
    using Suc.prems(4) unfolding chunks by (simp add: deliverable_def)
  obtain s1 r1 where s1: "submit_step f order cpu pbar S s = (s1, r1)" by force
  from submit_step_ok[OF Suc.prems(1-3) d1 s1] obtain evs1 where
    p: "r1 = None"
     "pool_tasks s1 = pool_tasks s @ [take ?e ?D]"
     "heap s1 (datapoints s1) = drop ?e ?D"
     "heap s1 data_ref = heap s data_ref" "data_ref < next_addr s1"
     "handles_ok s1" "datapoints_db s1 = datapoints_db s"
     "trace s1 = trace s @ evs1" "list_all submit_event evs1"
    by blast
  from Suc.prems(5) s1 p(1) have l: "submit_loop f order cpu pbar S n s1 = (s', r)" by simp
  have d2: "pbar \<longrightarrow> deliverable f (pool_tasks s1 @
          map (\<lambda>k. take (min (nat S) (length (heap s1 data_ref)))
                     (drop (k * min (nat S) (length (heap s1 data_ref))) (heap s1 (datapoints s1)))) [0..<n])"
    using Suc.prems(4) unfolding chunks p(2,3,4) by simp
  from Suc.IH[OF p(6) Suc.prems(2) p(5) d2 l] obtain evs where
    q: "r = None"
     "pool_tasks s' = pool_tasks s1 @
          map (\<lambda>k. take (min (nat S) (length (heap s1 data_ref)))
                     (drop (k * min (nat S) (length (heap s1 data_ref))) (heap s1 (datapoints s1)))) [0..<n]"
     "handles_ok s'" "datapoints_db s' = datapoints_db s1"
     "trace s' = trace s1 @ evs" "list_all submit_event evs"
    by blast
  have "trace s' = trace s @ (evs1 @ evs)" "list_all submit_event (evs1 @ evs)"
    using q(5,6) p(8,9) by simp_all
  then have "\<exists>evs. trace s' = trace s @ evs \<and> list_all submit_event evs" by blast
  moreover have "pool_tasks s' = pool_tasks s @
          map (\<lambda>k. take ?e (drop (k * ?e) ?D)) [0..<Suc n]"
    unfolding q(2) p(2,3,4) chunks by simp
  ultimately show ?case
    using q(1,3,4) p(7) by simp
qed





section \<open>Chunk arithmetic\<close>

lemma ceil_div_nat:
  assumes "0 < (T::nat)"
  shows "(N + T - 1) div T = N div T + (if N mod T > 0 then 1 else 0)"
proof -
  define Q where "Q = N div T"
  define M where "M = N mod T"
  define P where "P = T * Q"
  have N: "N = P + M" and M: "M < T"
    using assms by (simp_all add: P_def Q_def M_def)
  show ?thesis
  proof (cases "M = 0")
    case True
    have "(N + T - 1) div T = Q"
    proof (rule div_nat_eqI)
      show "T * Q \<le> N + T - 1" using N assms True by (simp add: P_def)
      show "N + T - 1 < T * Suc Q" using N assms True by (simp add: P_def)
    qed
    then show ?thesis using True by (simp add: Q_def M_def)
  next
    case False
    have "(N + T - 1) div T = Suc Q"
    proof (rule div_nat_eqI)
      show "T * Suc Q \<le> N + T - 1" using N assms False by (simp add: P_def)
      show "N + T - 1 < T * Suc (Suc Q)" using N M assms False by (simp add: P_def)
    qed
    then show ?thesis using False by (simp add: Q_def M_def)
  qed
qed

lemma step_ceil:
  assumes "0 < S"
  shows "nat (py_int_truediv (int N) S + py_bool (int N mod S > 0)) = (N + nat S - 1) div nat S"
proof -
  define T where "T = nat S"
  have T: "S = int T" "0 < T"
    using assms by (simp_all add: T_def)
  have a: "py_int_truediv (int N) S = int (N div T)"
    using T by (simp add: py_int_truediv_def zdiv_int)
  have b: "int N mod S = int (N mod T)"
    using T by (simp add: zmod_int)
  have "nat (int (N div T) + py_bool (int (N mod T) > 0)) = N div T + (if N mod T > 0 then 1 else 0)"
    by (cases "N mod T > 0") (simp_all add: py_bool_def nat_add_distrib)
  then show ?thesis
    unfolding a b T_def[symmetric] using ceil_div_nat[OF T(2), of N] by simp
qed

lemma div_decomp:
  assumes "0 < (T::nat)"
  obtains Q M where "N = Q * T + M" "M < T" "N div T = Q" "N mod T = M"
  using assms by (metis div_mult_mod_eq mod_less_divisor)

lemma chunk_index_bound:
  assumes "0 < (T::nat)" "k < (N + T - 1) div T"
  shows "k * T < N"
proof -
  obtain Q M where d: "N = Q * T + M" "M < T" "N div T = Q" "N mod T = M"
    by (rule div_decomp[OF assms(1)])
  have c: "(N + T - 1) div T = Q + (if M > 0 then 1 else 0)"
    using ceil_div_nat[OF assms(1), of N] d(3,4) by simp
  show ?thesis
  proof (cases "M > 0")
    case True
    with c assms(2) have "k \<le> Q" by simp
    then have "k * T \<le> Q * T" by (rule mult_le_mono1)
    with True d(1) show ?thesis by linarith
  next
    case False
    with c assms(2) have "Suc k \<le> Q" by simp
    then have "Suc k * T \<le> Q * T" by (rule mult_le_mono1)
    then have "k * T + T \<le> Q * T" by simp
    with False d(1) assms(1) show ?thesis by linarith
  qed
qed

lemma take_min_length: "take (min a (length xs)) xs = take a xs"
  by (simp add: min_def)

lemma chunk_eq:
  assumes "0 < T" "k < (N + T - 1) div T" "N = length data"
  shows "take (min T N) (drop (k * min T N) data) = chunk_of T data k"
proof (cases "T \<le> N")
  case True
  then have m: "min T N = T" by simp
  have lt: "k * T < N" by (rule chunk_index_bound[OF assms(1,2)])
  have "(k + 1) * T = k * T + T" by simp
  then have "min ((k + 1) * T) N - k * T = min T (length (drop (k * T) data))"
    using lt assms(3) by (auto simp: min_def)
  then show ?thesis
    unfolding m chunk_of_def assms(3)[symmetric] by (simp only: take_min_length)
next
  case False
  then have m: "min T N = N" by simp
  have "(N + T - 1) div T \<le> 1"
    using False assms(1) ceil_div_nat[OF assms(1), of N] by simp
  with assms(2) have "k = 0" by simp
  then show ?thesis
    unfolding m chunk_of_def using assms(3) False by simp
qed


lemma concat_chunks_take:
  "concat (map (\<lambda>k. take e (drop (k * e) D)) [0..<n]) = take (n * e) D"
proof (induction n)
  case 0
  then show ?case by simp
next
  case (Suc n)
  have "take (n * e) D @ take e (drop (n * e) D) = take (n * e + e) D"
    by (simp add: take_add)
  then show ?case using Suc by (simp add: add.commute)
qed

lemma ceil_covers:
  assumes "0 < (T::nat)"
  shows "N \<le> ((N + T - 1) div T) * T"
proof -
  obtain Q M where d: "N = Q * T + M" "M < T" "N div T = Q" "N mod T = M"
    by (rule div_decomp[OF assms(1)])
  have c: "(N + T - 1) div T = Q + (if M > 0 then 1 else 0)"
    using ceil_div_nat[OF assms(1), of N] d(3,4) by simp
  show ?thesis
  proof (cases "M > 0")
    case True
    then have "((N + T - 1) div T) * T = Q * T + T" using c by simp
    with d(1,2) show ?thesis by linarith
  next
    case False
    then have "((N + T - 1) div T) * T = Q * T" using c by simp
    with d(1) False show ?thesis by linarith
  qed
qed


section \<open>The chunks that are submitted\<close>

lemma submitted_append: "submitted (xs @ ys) = submitted xs @ submitted ys"
  by (induction xs rule: submitted.induct) simp_all

lemma submitted_Get: "submitted (map Get hs) = []"
  by (induction hs) simp_all

lemma submit_step_submitted:
  assumes "submit_step f order cpu pbar S s = (s', r)"
  shows "submitted (trace s') = submitted (trace s) @ [length (pool_tasks s)]
       \<and> length (pool_tasks s') = Suc (length (pool_tasks s))"
proof -
  let ?c = "submit_chunk S s"
  have c: "trace ?c = trace s @ [ApplyAsync (length (pool_tasks s))]"
    "length (pool_tasks ?c) = Suc (length (pool_tasks s))"
    by (simp_all add: submit_chunk_def alloc_def Let_def)
  have "(trace s' = trace ?c \<or> (\<exists>w. trace s' = trace ?c @ [Wait w]))
      \<and> pool_tasks s' = pool_tasks ?c"
    using assms
    by (auto simp: submit_step_def throttle_def Let_def split: if_splits option.splits)
  then show ?thesis
    using c by (auto simp: submitted_append)
qed

lemma submit_loop_submitted:
  assumes "submit_loop f order cpu pbar S n s = (s', None)"
  shows "submitted (trace s') =
         submitted (trace s) @ [length (pool_tasks s)..<length (pool_tasks s) + n]"
  using assms
proof (induction n arbitrary: s)
  case 0
  then show ?case by simp
next
  case (Suc n)
  obtain s1 r1 where s1: "submit_step f order cpu pbar S s = (s1, r1)" by force
  with Suc.prems have r1: "r1 = None" by (cases r1) simp_all
  with Suc.prems s1 have "submit_loop f order cpu pbar S n s1 = (s', None)" by simp
  from Suc.IH[OF this] submit_step_submitted[OF s1]
  have "submitted (trace s') = submitted (trace s) @
      length (pool_tasks s) # [Suc (length (pool_tasks s))..<Suc (length (pool_tasks s)) + n]"
    by simp
  then show ?case
    by (simp add: upt_conv_Cons del: upt_Suc)
qed

lemma length_asarray_items [simp]: "length (asarray_items td nd xs) = length xs"
  by (simp add: asarray_items_def)

lemma run_submitted:
  assumes "0 < S" "1 \<le> cpu"
    and d: "pbar \<longrightarrow> deliverable f (map (chunk_of (nat S) (asarray_items td nd data))
                [0..<(length data + nat S - 1) div nat S])"
  obtains s5 evs where
    "multiprocess_run f data nd td cpu pbar S od order =
       finish_run (aggregate f order od (semaphores s5) s5)"
    "pool_tasks s5 = map (chunk_of (nat S) (asarray_items td nd data))
       [0..<(length data + nat S - 1) div nat S]"
    "semaphores s5 = [0..<length (pool_tasks s5)]"
    "datapoints_db s5 = replicate (nat od) (Some [])"
    "trace s5 = PoolCreate cpu # evs" "list_all submit_event evs"
    "submitted (trace s5) = [0..<length (pool_tasks s5)]"
proof -
  define s4 :: "('a, 'b) state" where
    "s4 = start_run td nd cpu (init_buckets od (init_state data))"
  let ?items = "asarray_items td nd data"
  have s4: "handles_ok s4" "data_ref < next_addr s4" "heap s4 data_ref = data"
    "heap s4 (datapoints s4) = ?items" "datapoints_db s4 = replicate (nat od) (Some [])"
    "trace s4 = [PoolCreate cpu]" "pool_tasks s4 = []"
    unfolding s4_def by (simp_all add: start_run_started handles_ok_def)
  let ?n = "(length data + nat S - 1) div nat S"
  have n: "nat (step_count (int (length data)) S) = ?n"
    using step_ceil[OF assms(1), of "length data"] by (simp add: step_count_def)
  have T: "0 < nat S" using assms(1) by simp
  have chunks: "map (\<lambda>k. take (min (nat S) (length data))
                 (drop (k * min (nat S) (length data)) ?items)) [0..<?n]
      = map (chunk_of (nat S) ?items) [0..<?n]"
  proof (rule map_cong[OF refl])
    fix k assume "k \<in> set [0..<?n]"
    then have k: "k < ?n" by simp
    have len: "length data = length ?items" by simp
    show "take (min (nat S) (length data)) (drop (k * min (nat S) (length data)) ?items)
        = chunk_of (nat S) ?items k"
      by (rule chunk_eq[OF T k len])
  qed
  have d4: "pbar \<longrightarrow> deliverable f (pool_tasks s4 @
          map (\<lambda>k. take (min (nat S) (length (heap s4 data_ref)))
                 (drop (k * min (nat S) (length (heap s4 data_ref))) (heap s4 (datapoints s4))))
            [0..<?n])"
    using d unfolding s4(3,4,7) chunks by simp
  obtain s5 r5 where l: "submit_loop f order cpu pbar S ?n s4 = (s5, r5)" by force
  from submit_loop_ok[OF s4(1) assms(1) s4(2) d4 l] obtain evs where
    p: "r5 = None"
       "pool_tasks s5 = pool_tasks s4 @
          map (\<lambda>k. take (min (nat S) (length (heap s4 data_ref)))
                 (drop (k * min (nat S) (length (heap s4 data_ref))) (heap s4 (datapoints s4)))) [0..<?n]"
       "handles_ok s5" "datapoints_db s5 = datapoints_db s4"
       "trace s5 = trace s4 @ evs" "list_all submit_event evs"
    by blast
  have tasks: "pool_tasks s5 = map (chunk_of (nat S) ?items) [0..<?n]"
    unfolding p(2) s4(3,4,7) chunks by simp
  have run: "multiprocess_run f data nd td cpu pbar S od order =
       finish_run (aggregate f order od (semaphores s5) s5)"
    using assms(1,2) l p(1) unfolding multiprocess_run_def n s4_def[symmetric]
    by (simp add: Pool_ok_def collect_def)
  have sub: "submitted (trace s5) = [0..<length (pool_tasks s5)]"
    using submit_loop_submitted[OF l[unfolded p(1)]] s4(6,7) tasks by simp
  show ?thesis
    using that[OF run tasks _ _ _ _ sub] p(3,4,5,6) s4(5,6) by (simp add: handles_ok_def)
qed

lemma concat_chunk_of:
  assumes "0 < T"
  shows "concat (map (chunk_of T data) [0..<(length data + T - 1) div T]) = data"
proof -
  let ?N = "length data"
  let ?n = "(?N + T - 1) div T"
  let ?e = "min T ?N"
  have "map (chunk_of T data) [0..<?n] = map (\<lambda>k. take ?e (drop (k * ?e) data)) [0..<?n]"
    using chunk_eq[OF assms _ refl, of _ data] by simp
  then have c: "concat (map (chunk_of T data) [0..<?n]) = take (?n * ?e) data"
    by (simp only: concat_chunks_take)
  have "?N \<le> ?n * ?e"
  proof (cases "T \<le> ?N")
    case True
    then show ?thesis using ceil_covers[OF assms, of ?N] by (simp add: min_def)
  next
    case False
    then have e: "?e = ?N" by simp
    show ?thesis
    proof (cases "?N = 0")
      case True
      then show ?thesis by simp
    next
      case N: False
      then have "0 < ?n" using ceil_div_nat[OF assms, of ?N] False by simp
      then have "1 * ?N \<le> ?n * ?N" by (intro mult_le_mono1) simp
      then show ?thesis unfolding e by simp
    qed
  qed
  then show ?thesis unfolding c by simp
qed





section \<open>Aggregation in submission order\<close>

lemma resolved_append: "resolved (xs @ ys) = resolved xs @ resolved ys"
  by (induction xs rule: resolved.induct) simp_all

lemma resolved_Get: "resolved (map Get hs) = hs"
  by (induction hs) simp_all

lemma resolved_submit: "list_all submit_event evs \<Longrightarrow> resolved evs = []"
  by (induction evs rule: resolved.induct) simp_all

lemma aggregate_map:
  assumes "\<forall>h\<in>set hs. h < length (pool_tasks s)" "datapoints_db s = [Some acc]"
  shows "aggregate (\<lambda>c. Inr [Some (map g c)]) order 1 hs s =
     (s\<lparr>trace := trace s @ map Get hs,
        datapoints_db := [Some (acc @ concat (map (\<lambda>h. map g (pool_tasks s ! h)) hs))]\<rparr>, None)"
  using assms
proof (induction hs arbitrary: s acc)
  case Nil
  then show ?case by simp
next
  case (Cons h hs)
  let ?f = "(\<lambda>c. Inr [Some (map g c)]) :: _ \<Rightarrow> _ task_result"
  have "deliverable ?f (pool_tasks s)"
    by (simp add: deliverable_def list_all_iff)
  then have fin: "delivered ?f (pool_tasks s) order h = Some (Value [Some (map g (pool_tasks s ! h))])"
    using delivered_handle[of h "pool_tasks s" ?f order] Cons.prems(1) by simp
  have ext: "extend_all [0..<nat 1] [Some (map g (pool_tasks s ! h))] (datapoints_db s)
      = ([Some (acc @ map g (pool_tasks s ! h))], None)"
    using Cons.prems(2) by (simp add: extend_bucket_def)
  let ?s = "s\<lparr>trace := trace s @ [Get h], datapoints_db := [Some (acc @ map g (pool_tasks s ! h))]\<rparr>"
  have step: "aggregate ?f order 1 (h # hs) s = aggregate ?f order 1 hs ?s"
    using fin ext by simp
  have "\<forall>h\<in>set hs. h < length (pool_tasks ?s)" "datapoints_db ?s = [Some (acc @ map g (pool_tasks s ! h))]"
    using Cons.prems(1) by simp_all
  from Cons.IH[OF this] show ?case
    unfolding step by simp
qed

text \<open>
  Claim C1, as the code has it. With \<open>output_dim = 1\<close> and a work callback that
  returns, for each chunk, the one-element tuple of the chunk mapped item by item through
  \<open>g\<close> (the identity, or doubling as the items' own type computes it), every run with
  a chunk size above zero and a pool that can be created returns the single bucket
  \<open>map g items\<close>, where \<open>items\<close> are
  the items of \<open>np.asarray(data)\<close>: the workload itself when it is an array already,
  and its items converted to the array's dtype when it is a list. The handles are
  resolved by \<open>get\<close> in the order in which they were submitted, and all this holds for
  every order in which the tasks complete, with and without the progress bar. The
  instance for the workload \<open>[0..99]\<close>, chunk size 10 and doubling is the theorem that
  follows this one. A chunk size below zero is outside the statement: with the chunk size
  \<open>-2\<close> and a workload of three items the run submits nothing and returns one
  empty bucket, as the last theorem of this section shows.
\<close>

theorem multiprocess_run_order_preserved:
  assumes "0 < step_size" "1 \<le> cpu_count"
  shows "snd (multiprocess_run (\<lambda>chunk. Inr [Some (map g chunk)]) data is_ndarray to_dtype
                cpu_count pbar step_size 1 order)
           = Returned [map g (asarray_items to_dtype is_ndarray data)]
       \<and> resolved (trace (fst (multiprocess_run (\<lambda>chunk. Inr [Some (map g chunk)]) data is_ndarray
                to_dtype cpu_count pbar step_size 1 order)))
           = submitted (trace (fst (multiprocess_run (\<lambda>chunk. Inr [Some (map g chunk)]) data
                is_ndarray to_dtype cpu_count pbar step_size 1 order)))
       \<and> submitted (trace (fst (multiprocess_run (\<lambda>chunk. Inr [Some (map g chunk)]) data is_ndarray
                to_dtype cpu_count pbar step_size 1 order)))
           = [0..<(length data + nat step_size - 1) div nat step_size]"
proof -
  let ?f = "(\<lambda>c. Inr [Some (map g c)]) :: _ \<Rightarrow> _ task_result"
  let ?n = "(length data + nat step_size - 1) div nat step_size"
  let ?items = "asarray_items to_dtype is_ndarray data"
  have dl: "pbar \<longrightarrow> deliverable ?f (map (chunk_of (nat step_size) ?items) [0..<?n])"
    by (simp add: deliverable_def list_all_iff)
  obtain s5 evs where
    run: "multiprocess_run ?f data is_ndarray to_dtype cpu_count pbar step_size 1 order =
       finish_run (aggregate ?f order 1 (semaphores s5) s5)"
    and tasks: "pool_tasks s5 = map (chunk_of (nat step_size) ?items) [0..<?n]"
    and sem: "semaphores s5 = [0..<length (pool_tasks s5)]"
    and db: "datapoints_db s5 = replicate (nat 1) (Some [])"
    and tr: "trace s5 = PoolCreate cpu_count # evs" "list_all submit_event evs"
    and sub: "submitted (trace s5) = [0..<length (pool_tasks s5)]"
    by (rule run_submitted[OF assms dl])
  have T: "0 < nat step_size" using assms(1) by simp
  have len: "length (pool_tasks s5) = ?n" using tasks by simp
  have agg: "aggregate ?f order 1 (semaphores s5) s5 =
     (s5\<lparr>trace := trace s5 @ map Get (semaphores s5),
        datapoints_db := [Some ([] @ concat (map (\<lambda>h. map g (pool_tasks s5 ! h)) (semaphores s5)))]\<rparr>, None)"
    by (rule aggregate_map) (use sem db in simp_all)
  have "map (\<lambda>h. map g (pool_tasks s5 ! h)) [0..<length (pool_tasks s5)] = map (map g) (pool_tasks s5)"
    by (rule nth_equalityI) simp_all
  then have "concat (map (\<lambda>h. map g (pool_tasks s5 ! h)) (semaphores s5)) = map g (concat (pool_tasks s5))"
    unfolding sem by (simp add: map_concat)
  also have "\<dots> = map g ?items"
    unfolding tasks using concat_chunk_of[OF T, of ?items] by simp
  finally have out: "concat (map (\<lambda>h. map g (pool_tasks s5 ! h)) (semaphores s5)) = map g ?items" .
  have res: "resolved (trace s5 @ map Get (semaphores s5) @ [PoolClose, PoolJoin]) = [0..<?n]"
    using tr sem len by (simp add: resolved_append resolved_Get resolved_submit)
  have sbm: "submitted (trace s5 @ map Get (semaphores s5) @ [PoolClose, PoolJoin]) = [0..<?n]"
    using sub len by (simp add: submitted_append submitted_Get)
  show ?thesis
    unfolding run agg using out res sbm
    by (simp add: finish_run_def remove_None_def List.map_filter_simps)
qed

theorem multiprocess_run_order_preserved_witness:
  "(0::int) < 10 \<and> (1::int) \<le> 4
   \<and> snd (multiprocess_run (\<lambda>chunk. Inr [Some (map (\<lambda>x. x * 2) chunk)])
        (map int [0..<100]) False (\<lambda>xs x. x) 4 False 10 1 [9, 3, 0, 7, 1]) =
      Returned [[0, 2, 4, 6, 8, 10, 12, 14, 16, 18, 20, 22, 24, 26, 28, 30, 32, 34, 36, 38,
                40, 42, 44, 46, 48, 50, 52, 54, 56, 58, 60, 62, 64, 66, 68, 70, 72, 74, 76, 78,
                80, 82, 84, 86, 88, 90, 92, 94, 96, 98, 100, 102, 104, 106, 108, 110, 112, 114, 116, 118,
                120, 122, 124, 126, 128, 130, 132, 134, 136, 138, 140, 142, 144, 146, 148, 150, 152, 154, 156, 158,
                160, 162, 164, 166, 168, 170, 172, 174, 176, 178, 180, 182, 184, 186, 188, 190, 192, 194, 196, 198]]
   \<and> resolved (trace (fst (multiprocess_run (\<lambda>chunk. Inr [Some (map (\<lambda>x. x * 2) chunk)])
        (map int [0..<100]) False (\<lambda>xs x. x) 4 False 10 1 [9, 3, 0, 7, 1]))) = [0..<10]"
proof -
  have h: "(0::int) < 10" "(1::int) \<le> 4" by simp_all
  have d: "map (\<lambda>x. x * 2) (asarray_items (\<lambda>xs x. x) False (map int [0..<100])) =
      [0, 2, 4, 6, 8, 10, 12, 14, 16, 18, 20, 22, 24, 26, 28, 30, 32, 34, 36, 38,
                40, 42, 44, 46, 48, 50, 52, 54, 56, 58, 60, 62, 64, 66, 68, 70, 72, 74, 76, 78,
                80, 82, 84, 86, 88, 90, 92, 94, 96, 98, 100, 102, 104, 106, 108, 110, 112, 114, 116, 118,
                120, 122, 124, 126, 128, 130, 132, 134, 136, 138, 140, 142, 144, 146, 148, 150, 152, 154, 156, 158,
                160, 162, 164, 166, 168, 170, 172, 174, 176, 178, 180, 182, 184, 186, 188, 190, 192, 194, 196, 198]"
    by code_simp
  show ?thesis
    using multiprocess_run_order_preserved[OF h, of "\<lambda>x. x * 2"
        "map int [0..<100]" False "\<lambda>xs x. x" False "[9, 3, 0, 7, 1]"] d
    by simp
qed

theorem multiprocess_run_order_preserved_counterexample:
  "snd (multiprocess_run (\<lambda>chunk. Inr [Some chunk] :: int task_result) [5, 6, 7 :: int] False
          (\<lambda>xs x. x) 2 False (- 2) 1 []) = Returned [[]]
   \<and> submitted (trace (fst (multiprocess_run (\<lambda>chunk. Inr [Some chunk] :: int task_result)
          [5, 6, 7 :: int] False (\<lambda>xs x. x) 2 False (- 2) 1 []))) = []
   \<and> resolved (trace (fst (multiprocess_run (\<lambda>chunk. Inr [Some chunk] :: int task_result)
          [5, 6, 7 :: int] False (\<lambda>xs x. x) 2 False (- 2) 1 []))) = []"
  by code_simp

section \<open>Failing tasks and the shutdown of the pool\<close>









section \<open>Chunk sizes that are not positive, absent buckets, throttling\<close>

lemma step_count_nonpos:
  assumes "S < 0"
  shows "nat (step_count (int N) S) = 0"
proof -
  have "py_int_truediv (int N) S \<le> 0"
    using assms by (simp add: py_int_truediv_def pos_imp_zdiv_nonneg_iff)
  moreover have "int N mod S \<le> 0"
    using assms by (rule neg_mod_sign)
  ultimately show ?thesis
    by (simp add: step_count_def py_bool_def)
qed

lemma remove_None_replicate: "remove_None (replicate n (Some [])) = replicate n []"
  by (induction n) (simp_all add: remove_None_def List.map_filter_simps)

text \<open>
  Claim C7, as the code has it. Nothing in the code checks the chunk size and no
  ConfigurationError exists. For \<open>step_size = 0\<close> line 27 raises ZeroDivisionError before
  the pool is created and before any task is submitted. For \<open>step_size < 0\<close> (and a
  pool that can be created) no exception is raised at all: \<open>step\<close> is not positive, the
  pool is created, no chunk is submitted, the pool is closed and joined, and the run returns
  \<open>output_dim\<close> empty buckets.
\<close>

theorem multiprocess_run_step_size_not_positive:
  fixes f :: "'a list \<Rightarrow> 'b task_result"
  shows
   "(step_size = 0 \<longrightarrow>
       snd (multiprocess_run f data is_ndarray to_dtype cpu_count pbar step_size output_dim order)
         = Raised ZeroDivisionError
       \<and> trace (fst (multiprocess_run f data is_ndarray to_dtype cpu_count pbar step_size output_dim order))
         = []
       \<and> pool_tasks (fst (multiprocess_run f data is_ndarray to_dtype cpu_count pbar step_size output_dim
           order)) = [])
    \<and> (step_size < 0 \<and> 1 \<le> cpu_count \<longrightarrow>
       snd (multiprocess_run f data is_ndarray to_dtype cpu_count pbar step_size output_dim order)
         = Returned (replicate (nat output_dim) [])
       \<and> trace (fst (multiprocess_run f data is_ndarray to_dtype cpu_count pbar step_size output_dim order))
         = [PoolCreate cpu_count, PoolClose, PoolJoin]
       \<and> pool_tasks (fst (multiprocess_run f data is_ndarray to_dtype cpu_count pbar step_size output_dim
           order)) = [])"
proof (intro conjI impI)
  assume "step_size = 0"
  then show "snd (multiprocess_run f data is_ndarray to_dtype cpu_count pbar step_size output_dim order)
         = Raised ZeroDivisionError"
    "trace (fst (multiprocess_run f data is_ndarray to_dtype cpu_count pbar step_size output_dim order))
         = []"
    "pool_tasks (fst (multiprocess_run f data is_ndarray to_dtype cpu_count pbar step_size output_dim
           order)) = []"
    by (simp_all add: multiprocess_run_def init_state_def)
next
  assume a: "step_size < 0 \<and> 1 \<le> cpu_count"
  let ?s4 = "start_run to_dtype is_ndarray cpu_count (init_buckets output_dim (init_state data))
               :: ('a, 'b) state"
  have run: "multiprocess_run f data is_ndarray to_dtype cpu_count pbar step_size output_dim order =
      finish_run (aggregate f order output_dim (semaphores ?s4) ?s4)"
    using a step_count_nonpos[of step_size "length data"]
    by (simp add: multiprocess_run_def Pool_ok_def collect_def)
  have fin: "finish_run (aggregate f order output_dim (semaphores ?s4) ?s4) =
      (?s4\<lparr>trace := trace ?s4 @ [PoolClose, PoolJoin]\<rparr>, Returned (remove_None (datapoints_db ?s4)))"
    by (simp add: start_run_started finish_run_def)
  show "snd (multiprocess_run f data is_ndarray to_dtype cpu_count pbar step_size output_dim order)
         = Returned (replicate (nat output_dim) [])"
    "trace (fst (multiprocess_run f data is_ndarray to_dtype cpu_count pbar step_size output_dim order))
         = [PoolCreate cpu_count, PoolClose, PoolJoin]"
    "pool_tasks (fst (multiprocess_run f data is_ndarray to_dtype cpu_count pbar step_size output_dim
           order)) = []"
    unfolding run fin by (simp_all add: start_run_started remove_None_replicate)
qed

theorem multiprocess_run_step_size_not_positive_witness:
  "snd (multiprocess_run (\<lambda>c. Inr [Some c] :: int task_result) [5, 6, 7 :: int] False (\<lambda>xs x. x) 2 False 0 1 [])
     = Raised ZeroDivisionError
   \<and> trace (fst (multiprocess_run (\<lambda>c. Inr [Some c] :: int task_result) [5, 6, 7 :: int] False (\<lambda>xs x. x) 2
       False 0 1 [])) = []
   \<and> snd (multiprocess_run (\<lambda>c. Inr [Some c] :: int task_result) [5, 6, 7 :: int] False (\<lambda>xs x. x) 2 False
       (- 2) 2 []) = Returned [[], []]
   \<and> trace (fst (multiprocess_run (\<lambda>c. Inr [Some c] :: int task_result) [5, 6, 7 :: int] False (\<lambda>xs x. x) 2
       False (- 2) 2 [])) = [PoolCreate 2, PoolClose, PoolJoin]"
proof -
  have r: "replicate (nat 2) [] = [[], []]" by (simp add: numeral_2_eq_2)
  show ?thesis
    using multiprocess_run_step_size_not_positive
        [of 0 "\<lambda>c. Inr [Some c] :: int task_result" "[5, 6, 7 :: int]" False "\<lambda>xs x. x" 2 False 1
          "[]"]
      multiprocess_run_step_size_not_positive
        [of "- 2" "\<lambda>c. Inr [Some c] :: int task_result" "[5, 6, 7 :: int]" False "\<lambda>xs x. x" 2
          False 2 "[]"]
    unfolding r by simp
qed

theorem multiprocess_run_step_size_not_positive_counterexample:
  "snd (multiprocess_run (\<lambda>c. Inr [Some c] :: int task_result) [5, 6, 7 :: int] False (\<lambda>xs x. x) 2 False (- 1)
     1 []) = Returned [[]]
   \<and> trace (fst (multiprocess_run (\<lambda>c. Inr [Some c] :: int task_result) [5, 6, 7 :: int] False (\<lambda>xs x. x) 2
       False (- 1) 1 [])) = [PoolCreate 2, PoolClose, PoolJoin]"
  by code_simp

text \<open>
  Claim C3 fails on the code. With \<open>output_dim = 2\<close> and a callback that returns
  \<open>(seq, None)\<close>, resolving the first handle runs \<open>datapoints_db[1].extend(None)\<close>,
  which raises TypeError: the run returns no tuple at all. The buckets are lists from
  line 28 on, so the filter of line 86 finds no \<open>None\<close> to remove.
\<close>

theorem multiprocess_run_None_bucket_raises:
  "snd (multiprocess_run (\<lambda>c. Inr [Some c, None]) [1, 2 :: int] False (\<lambda>xs x. x) 1 False 1 2 [])
     = Raised TypeError
   \<and> trace (fst (multiprocess_run (\<lambda>c. Inr [Some c, None]) [1, 2 :: int] False (\<lambda>xs x. x) 1 False 1 2 []))
     = [PoolCreate 1, ApplyAsync 0, ApplyAsync 1, Get 0]
   \<and> datapoints_db (fst (multiprocess_run (\<lambda>c. Inr [Some c, None]) [1, 2 :: int] False (\<lambda>xs x. x) 1 False 1
       2 [])) = [Some [1], Some []]"
  by code_simp

text \<open>
  Claim C8 fails on the code. With a progress bar, one worker and ten chunks, the
  coordinator waits three times, each time on the handle at index \<open>cpu_count + 1 = 2\<close>:
  it is the newest handle at the first wait and an already resolved one afterwards. The
  handles 3 to 9 are submitted without any wait on them, so seven handles can be
  unresolved when the loop ends, which is more than \<open>cpu_count + 1\<close>.
\<close>

theorem multiprocess_run_throttle_waits_on_fixed_handle:
  "submitted (trace (fst (multiprocess_run (\<lambda>c. Inr [Some c])
       [0, 1, 2, 3, 4, 5, 6, 7, 8, 9 :: int] False (\<lambda>xs x. x) 1 True 1 1 []))) = [0, 1, 2, 3, 4, 5, 6, 7, 8, 9]
   \<and> submission (trace (fst (multiprocess_run (\<lambda>c. Inr [Some c])
       [0, 1, 2, 3, 4, 5, 6, 7, 8, 9 :: int] False (\<lambda>xs x. x) 1 True 1 1 [])))
       = [PoolCreate 1, ApplyAsync 0, ApplyAsync 1, ApplyAsync 2, Wait 2, ApplyAsync 3,
          ApplyAsync 4, ApplyAsync 5, Wait 2, ApplyAsync 6, ApplyAsync 7, ApplyAsync 8, Wait 2,
          ApplyAsync 9]
   \<and> outstanding (submission (trace (fst (multiprocess_run (\<lambda>c. Inr [Some c])
       [0, 1, 2, 3, 4, 5, 6, 7, 8, 9 :: int] False (\<lambda>xs x. x) 1 True 1 1 []))))
       = [3, 4, 5, 6, 7, 8, 9]"
  by code_simp

section \<open>multigpu_run: the device queue, the step size, the chunks\<close>

lemma gpu_submit_step_queue:
  assumes "gpu_submit_step f order data D pbar N ss i s = (s', r)"
  shows "device_queue s' = device_queue s \<and> (\<exists>evs. gpu_trace s' = gpu_trace s @ evs)"
  using assms
  by (auto simp: gpu_submit_step_def gpu_submit_chunk_def gpu_throttle_def Let_def
      split: if_splits option.splits)

lemma gpu_submit_loop_queue:
  assumes "gpu_submit_loop f order data D pbar N ss is s = (s', r)"
  shows "device_queue s' = device_queue s \<and> (\<exists>evs. gpu_trace s' = gpu_trace s @ evs)"
  using assms
proof (induction "is" arbitrary: s)
  case Nil
  then show ?case by simp
next
  case (Cons i "is")
  obtain s1 r1 where s1: "gpu_submit_step f order data D pbar N ss i s = (s1, r1)" by force
  from gpu_submit_step_queue[OF s1] obtain evs1 where
    q1: "device_queue s1 = device_queue s" "gpu_trace s1 = gpu_trace s @ evs1" by blast
  show ?case
  proof (cases r1)
    case None
    with Cons.prems s1 have "gpu_submit_loop f order data D pbar N ss is s1 = (s', r)" by simp
    from Cons.IH[OF this] obtain evs where
      "device_queue s' = device_queue s1" "gpu_trace s' = gpu_trace s1 @ evs" by blast
    with q1 have "device_queue s' = device_queue s \<and> gpu_trace s' = gpu_trace s @ (evs1 @ evs)"
      by simp
    then show ?thesis by blast
  next
    case (Some st)
    with Cons.prems s1 have "s' = s1" by simp
    with q1 show ?thesis by blast
  qed
qed

lemma gpu_aggregate_queue:
  assumes "gpu_aggregate f order hs s = (s', r)"
  shows "device_queue s' = device_queue s \<and> (\<exists>evs. gpu_trace s' = gpu_trace s @ evs)"
  using assms
proof (induction hs arbitrary: s)
  case Nil
  then show ?case by simp
next
  case (Cons h hs)
  show ?case
  proof (cases "\<exists>xs. delivered f (gpu_tasks s) order h = Some (Value (Some xs))")
    case True
    then obtain xs where "delivered f (gpu_tasks s) order h = Some (Value (Some xs))" by blast
    with Cons.prems have "gpu_aggregate f order hs
        (s\<lparr>gpu_trace := gpu_trace s @ [Get h], gpu_datapoints_db := gpu_datapoints_db s @ xs\<rparr>)
        = (s', r)"
      by simp
    from Cons.IH[OF this] obtain evs where
      "device_queue s' = device_queue s" "gpu_trace s' = (gpu_trace s @ [Get h]) @ evs" by auto
    then have "device_queue s' = device_queue s \<and> gpu_trace s' = gpu_trace s @ (Get h # evs)"
      by simp
    then show ?thesis by blast
  next
    case False
    with Cons.prems have "device_queue s' = device_queue s \<and> gpu_trace s' = gpu_trace s @ [Get h]"
      by (auto split: option.splits message.splits)
    then show ?thesis by blast
  qed
qed

lemma multigpu_run_queue:
  fixes f :: "'x list \<times> 'y list \<Rightarrow> 'b gpu_result"
  shows "device_queue (fst (multigpu_run f data D pbar ss od order)) =
     build_device_queue D (snd (gpu_partition ss (int (length (fst data))) D))"
    and "Pool_ok D \<Longrightarrow> \<exists>evs. gpu_trace (fst (multigpu_run f data D pbar ss od order))
           = PoolCreate D # evs"
proof -
  let ?N = "int (length (fst data))"
  let ?part = "gpu_partition ss ?N D"
  let ?s1 = "(gpu_init D (snd ?part) :: ('x, 'y, 'b) gpu_state)\<lparr>gpu_trace := [PoolCreate D]\<rparr>"
  obtain s2 r2 where l: "gpu_submit_loop f order data D pbar ?N (fst ?part) [0..<nat (snd ?part)] ?s1
      = (s2, r2)" by force
  from gpu_submit_loop_queue[OF l] obtain evs2 where
    q2: "device_queue s2 = device_queue ?s1" "gpu_trace s2 = gpu_trace ?s1 @ evs2" by blast
  obtain s3 r3 where g: "gpu_collect f order (s2, r2) = (s3, r3)" by force
  have "device_queue s3 = device_queue s2 \<and> (\<exists>evs. gpu_trace s3 = gpu_trace s2 @ evs)"
  proof (cases r2)
    case None
    with g have "gpu_aggregate f order (gpu_semaphores s2) s2 = (s3, r3)"
      by (simp add: gpu_collect_def)
    then show ?thesis by (rule gpu_aggregate_queue)
  next
    case (Some st)
    with g show ?thesis by (simp add: gpu_collect_def)
  qed
  then obtain evs3 where
    q3: "device_queue s3 = device_queue s2" "gpu_trace s3 = gpu_trace s2 @ evs3" by blast
  have fin: "device_queue (fst (gpu_finish (s3, r3))) = device_queue s3
      \<and> (\<exists>evs. gpu_trace (fst (gpu_finish (s3, r3))) = gpu_trace s3 @ evs)"
    by (cases r3) (simp_all add: gpu_finish_def)
  then obtain evs4 where
    q4: "device_queue (fst (gpu_finish (s3, r3))) = device_queue s3"
      "gpu_trace (fst (gpu_finish (s3, r3))) = gpu_trace s3 @ evs4" by blast
  have run: "Pool_ok D \<Longrightarrow> multigpu_run f data D pbar ss od order = gpu_finish (s3, r3)"
    using l g by (simp add: multigpu_run_def Let_def)
  show "device_queue (fst (multigpu_run f data D pbar ss od order)) =
     build_device_queue D (snd ?part)"
  proof (cases "Pool_ok D")
    case True
    then show ?thesis using run q2 q3 q4 by (simp add: gpu_init_def)
  next
    case False
    then show ?thesis by (simp add: multigpu_run_def Let_def gpu_init_def)
  qed
  show "\<exists>evs. gpu_trace (fst (multigpu_run f data D pbar ss od order)) = PoolCreate D # evs"
    if "Pool_ok D"
    using run[OF that] q2 q3 q4 by simp
qed

text \<open>
  Claim C6, as the code has it. \<open>multigpu_run\<close> takes no count of worker slots: the
  pool has \<open>gpu_count\<close> processes, and the queue gets one device id per chunk. For
  \<open>gpu_count > 0\<close> the queue holds, in the order they were put, the ids \<open>i % gpu_count\<close>
  for \<open>i\<close> below the number of chunks, which is 1 for \<open>gpu_count = 1\<close> and
  \<open>gpu_count\<close>, plus one when the data size is no multiple of it, otherwise. For
  \<open>gpu_count \<le> 0\<close> no queue is built.
\<close>

theorem multigpu_run_device_queue:
  fixes f :: "'x list \<times> 'y list \<Rightarrow> 'b gpu_result"
  shows
   "(0 < gpu_count \<longrightarrow>
       device_queue (fst (multigpu_run f data gpu_count pbar step_size output_dim order)) =
         Some (map (\<lambda>i. int i mod gpu_count)
           [0..<(if 1 < gpu_count
                 then nat gpu_count + (if int (length (fst data)) mod gpu_count = 0 then 0 else 1)
                 else 1)])
       \<and> (\<exists>evs. gpu_trace (fst (multigpu_run f data gpu_count pbar step_size output_dim order))
             = PoolCreate gpu_count # evs))
    \<and> (gpu_count \<le> 0 \<longrightarrow>
       device_queue (fst (multigpu_run f data gpu_count pbar step_size output_dim order)) = None)"
proof (intro conjI impI)
  assume "gpu_count \<le> 0"
  then show "device_queue (fst (multigpu_run f data gpu_count pbar step_size output_dim order))
      = None"
    by (simp add: multigpu_run_queue(1) build_device_queue_def)
next
  assume p: "0 < gpu_count"
  then show "\<exists>evs. gpu_trace (fst (multigpu_run f data gpu_count pbar step_size output_dim order))
             = PoolCreate gpu_count # evs"
    by (intro multigpu_run_queue(2)) (simp add: Pool_ok_def)
  let ?N = "int (length (fst data))"
  have m: "0 \<le> ?N mod gpu_count" using p by simp
  then have m': "(0 < ?N mod gpu_count) = (?N mod gpu_count \<noteq> 0)" by linarith
  have "nat (snd (gpu_partition step_size ?N gpu_count)) =
      (if 1 < gpu_count then nat gpu_count + (if ?N mod gpu_count = 0 then 0 else 1) else 1)"
    using p by (simp add: gpu_partition_def py_bool_def nat_add_distrib m')
  then show "device_queue (fst (multigpu_run f data gpu_count pbar step_size output_dim order)) =
         Some (map (\<lambda>i. int i mod gpu_count)
           [0..<(if 1 < gpu_count
                 then nat gpu_count + (if int (length (fst data)) mod gpu_count = 0 then 0 else 1)
                 else 1)])"
    using p by (simp add: multigpu_run_queue(1) build_device_queue_def)
qed

theorem multigpu_run_device_queue_witness:
  "device_queue (fst (multigpu_run (\<lambda>(x, y). Inr (Some x) :: int gpu_result)
       ([1, 2, 3, 4, 5 :: int], [0, 0, 0, 0, 0 :: int]) 2 False None 1 [])) = Some [0, 1, 0]
   \<and> device_queue (fst (multigpu_run (\<lambda>(x, y). Inr (Some x) :: int gpu_result)
       ([1, 2, 3, 4, 5 :: int], [0, 0, 0, 0, 0 :: int]) 0 False None 1 [])) = None"
proof -
  have q: "map (\<lambda>i. int i mod 2) [0..<3] = [0, 1, 0]"
    by (simp add: upt_rec)
  show ?thesis
    using multigpu_run_device_queue[of 2 "\<lambda>(x, y). Inr (Some x) :: int gpu_result"
        "([1, 2, 3, 4, 5 :: int], [0, 0, 0, 0, 0 :: int])" False None 1 "[]"]
      multigpu_run_device_queue[of 0 "\<lambda>(x, y). Inr (Some x) :: int gpu_result"
        "([1, 2, 3, 4, 5 :: int], [0, 0, 0, 0, 0 :: int])" False None 1 "[]"] q
    by simp
qed

theorem multigpu_run_device_queue_counterexample:
  "device_queue (fst (multigpu_run (\<lambda>(x, y). Inr (Some x) :: int gpu_result)
       ([1, 2, 3, 4, 5 :: int], [0, 0, 0, 0, 0 :: int]) 2 False None 1 [])) = Some [0, 1, 0]
   \<and> gpu_trace (fst (multigpu_run (\<lambda>(x, y). Inr (Some x) :: int gpu_result)
       ([1, 2, 3, 4, 5 :: int], [0, 0, 0, 0, 0 :: int]) 2 False None 1 []))
      = [PoolCreate 2, ApplyAsync 0, ApplyAsync 1, ApplyAsync 2, Get 0, Get 1, Get 2,
         PoolTerminate, PoolClose]"
  by code_simp

text \<open>
  Claim C10. Two calls of \<open>multigpu_run\<close> that differ in the \<open>step_size\<close> argument
  only end in the same state (the same chunks, queue and trace) with the same outcome:
  both branches of lines 131 to 136 assign \<open>step_size\<close> before it is read.
\<close>

theorem multigpu_run_ignores_step_size:
  "multigpu_run f data gpu_count pbar step_size output_dim order =
   multigpu_run f data gpu_count pbar step_size' output_dim order"
  by (simp add: multigpu_run_def gpu_partition_def)

theorem multigpu_run_ignores_step_size_witness:
  "multigpu_run (\<lambda>(x, y). Inr (Some x) :: int gpu_result)
     ([1, 2, 3, 4, 5 :: int], [0, 0, 0, 0, 0 :: int]) 2 True (Some 1) 1 [1, 0] =
   multigpu_run (\<lambda>(x, y). Inr (Some x) :: int gpu_result)
     ([1, 2, 3, 4, 5 :: int], [0, 0, 0, 0, 0 :: int]) 2 True None 1 [1, 0]"
  using multigpu_run_ignores_step_size[of "\<lambda>(x, y). Inr (Some x) :: int gpu_result"
      "([1, 2, 3, 4, 5 :: int], [0, 0, 0, 0, 0 :: int])" 2 True "Some 1" 1 "[1, 0]" None]
  by simp

text \<open>
  Claim C5 fails on the code. With four devices and seven items the step size is
  \<open>floor(7/4) = 1\<close> and five chunks are cut, each of one item: the items at the
  indices 5 and 6 are in no chunk and are missing from the result. The one extra chunk
  holds the rest only when the remainder is at most the step size.
\<close>

theorem multigpu_run_drops_items:
  "map fst (gpu_tasks (fst (multigpu_run (\<lambda>(x, y). Inr (Some x))
       ([10, 11, 12, 13, 14, 15, 16 :: int], [0, 0, 0, 0, 0, 0, 0 :: int]) 4 False None 1 [])))
     = [[10], [11], [12], [13], [14]]
   \<and> snd (multigpu_run (\<lambda>(x, y). Inr (Some x))
       ([10, 11, 12, 13, 14, 15, 16 :: int], [0, 0, 0, 0, 0, 0, 0 :: int]) 4 False None 1 [])
     = Returned [10, 11, 12, 13, 14]"
  by code_simp

end
